theory Spec2Isabelle
  imports Main
begin

section \<open>The TechCrunch scraper: fetch, parse, store, drive\<close>

text \<open>
  A shallow embedding of \<^verbatim>\<open>src/tech-crunch.py\<close> (class \<^verbatim>\<open>TechCrunchScraper\<close>).
  The network, the HTML parser, \<^verbatim>\<open>urljoin\<close> and the clock are outside the repository;
  they enter the model as explicit inputs:
  \<^item> the network is a function from a URL and the index of the attempt inside one
    \<^verbatim>\<open>fetch_page\<close> call to what \<^verbatim>\<open>session.get\<close> does at that attempt;
  \<^item> \<^verbatim>\<open>BeautifulSoup(html).select('article.post-block')\<close> is a function from the page
    text to the list of item blocks it finds (or nothing when it raises);
  \<^item> \<^verbatim>\<open>urljoin\<close> is a function that returns a string or raises;
  \<^item> \<^verbatim>\<open>datetime.utcnow().isoformat()\<close> is a function from the page being saved to the
    time stamp read there.
  What the code does beyond returning a value is explicit: the sleeps and the requests
  are events of a trace, the table \<^verbatim>\<open>articles\<close> is a list of rows in insertion order,
  and an exception that leaves a function is the left summand of its result. Log lines
  are not modelled. Strings are ASCII.

  Not modelled: a request that fails with an exception other than
  \<^verbatim>\<open>aiohttp.ClientError\<close>, a body that cannot be read or decoded, and storage errors
  (\<^verbatim>\<open>sqlite3.Error\<close>, which \<^verbatim>\<open>save_articles\<close> logs and passes over).
\<close>

subsection \<open>Replies, errors, events\<close>

datatype reply =
    Response (status: int) (headers: "(string \<times> string) list") (body: string)
  | ClientError

datatype error = ValueError | KeyError

text \<open>
  \<open>Get u\<close> is a request for \<open>u\<close>; \<open>Sleep d\<close> is a call \<^verbatim>\<open>asyncio.sleep(d)\<close>. The call
  returns at once when \<open>d \<le> 0\<close>. When \<open>d\<close> is too large for a float, from \<open>float_limit\<close>
  on, the call raises OverflowError instead of sleeping; the model does not follow that
  exception, so what is stated about a delay read from a reply is stated for delays
  below \<open>float_limit\<close>. The back-off delays of the source are 1 and 2 seconds.
\<close>

datatype event = Get string | Sleep int

definition float_limit :: int where
  "float_limit = 2 ^ 1024 - 2 ^ 970"

definition emit :: "event list \<Rightarrow> 'a \<times> event list \<Rightarrow> 'a \<times> event list" where
  "emit evs r = (fst r, evs @ snd r)"

subsection \<open>Reading Retry-After: \<^verbatim>\<open>int(response.headers.get('Retry-After', 5))\<close>\<close>

text \<open>
  Python's \<^verbatim>\<open>int\<close> on a string: surrounding white space (tab, line feed, vertical
  tab, form feed, carriage return, space) is dropped, one sign is allowed, then decimal
  digits with single underscores between digits; anything else raises ValueError, and
  so do more than 4300 digits (the interpreter's default limit on the conversion).
\<close>

definition py_isspace :: "char \<Rightarrow> bool" where
  "py_isspace c = ((of_char c :: nat) = 32 \<or> (9 \<le> (of_char c :: nat) \<and> (of_char c :: nat) \<le> 13))"

definition py_strip :: "string \<Rightarrow> string" where
  "py_strip s = rev (dropWhile py_isspace (rev (dropWhile py_isspace s)))"

definition is_digit :: "char \<Rightarrow> bool" where
  "is_digit c = (48 \<le> (of_char c :: nat) \<and> (of_char c :: nat) \<le> 57)"

definition digit_val :: "char \<Rightarrow> nat" where
  "digit_val c = (of_char c :: nat) - 48"

fun digits_val :: "nat \<Rightarrow> string \<Rightarrow> nat option" where
  "digits_val acc [] = Some acc"
| "digits_val acc [c] = (if is_digit c then Some (10 * acc + digit_val c) else None)"
| "digits_val acc (c # d # cs) =
     (if is_digit c then digits_val (10 * acc + digit_val c) (d # cs)
      else if c = CHR ''_'' \<and> is_digit d then digits_val (10 * acc + digit_val d) cs
      else None)"

definition py_nat :: "string \<Rightarrow> nat option" where
  "py_nat s =
     (if length (filter is_digit s) > 4300 then None
      else case s of [] \<Rightarrow> None
           | c # cs \<Rightarrow> if is_digit c then digits_val (digit_val c) cs else None)"

definition py_int :: "string \<Rightarrow> int option" where
  "py_int s =
     (case py_strip s of
        [] \<Rightarrow> None
      | c # cs \<Rightarrow>
          if c = CHR ''-'' then map_option (\<lambda>n. - int n) (py_nat cs)
          else if c = CHR ''+'' then map_option int (py_nat cs)
          else map_option int (py_nat (c # cs)))"

text \<open>Header names compare without regard to case, as aiohttp's header map does.\<close>

definition lower :: "char \<Rightarrow> char" where
  "lower c = (if 65 \<le> (of_char c :: nat) \<and> (of_char c :: nat) \<le> 90
              then char_of ((of_char c :: nat) + 32) else c)"

definition header_get :: "(string \<times> string) list \<Rightarrow> string \<Rightarrow> string option" where
  "header_get hs k = map_of (map (\<lambda>(n, v). (map lower n, v)) hs) (map lower k)"

definition retry_after :: "(string \<times> string) list \<Rightarrow> error + int" where
  "retry_after hs =
     (case header_get hs ''Retry-After'' of
        None \<Rightarrow> Inr 5
      | Some v \<Rightarrow> (case py_int v of None \<Rightarrow> Inl ValueError | Some n \<Rightarrow> Inr n))"

subsection \<open>\<^verbatim>\<open>fetch_page\<close>\<close>

text \<open>
  The loop \<^verbatim>\<open>for attempt in range(max_retries)\<close> of \<^verbatim>\<open>fetch_page\<close>, from the attempt
  \<open>attempt\<close> on. The source binds \<^verbatim>\<open>max_retries = 3\<close>; the loop is written for any bound
  and \<open>fetch_page\<close> below fixes it. The result is the returned string (\<open>Inr\<close>) or the
  exception that leaves the function (\<open>Inl\<close>), with the requests and sleeps in order.
\<close>

function fetch_loop :: "nat \<Rightarrow> nat \<Rightarrow> string \<Rightarrow> (nat \<Rightarrow> reply) \<Rightarrow> (error + string) \<times> event list" where
  "fetch_loop max_retries attempt u get =
     (if attempt < max_retries then
        emit [Get u]
          (case get attempt of
             Response st hs b \<Rightarrow>
               if st = 200 then (Inr b, [])
               else if st = 429 then
                 (case retry_after hs of
                    Inl e \<Rightarrow> (Inl e, [])
                  | Inr d \<Rightarrow> emit [Sleep d] (fetch_loop max_retries (Suc attempt) u get))
               else (Inr [], [])
           | ClientError \<Rightarrow>
               if int attempt < int max_retries - 1
               then emit [Sleep (2 ^ attempt)] (fetch_loop max_retries (Suc attempt) u get)
               else fetch_loop max_retries (Suc attempt) u get)
      else (Inr [], []))"
  by pat_completeness auto
termination
  by (relation "measure (\<lambda>(m, a, u, g). m - a)") auto

declare fetch_loop.simps [simp del]

definition fetch_page :: "string \<Rightarrow> (nat \<Rightarrow> reply) \<Rightarrow> (error + string) \<times> event list" where
  "fetch_page u get = fetch_loop 3 0 u get"

text \<open>A scripted target: the replies of the first attempts, then \<open>dflt\<close> for ever.\<close>

definition script :: "reply list \<Rightarrow> reply \<Rightarrow> nat \<Rightarrow> reply" where
  "script rs dflt k = (if k < length rs then rs ! k else dflt)"

definition fails_then :: "nat \<Rightarrow> string \<Rightarrow> nat \<Rightarrow> reply" where
  "fails_then n b k = (if k < n then ClientError else Response 200 [] b)"

subsection \<open>\<^verbatim>\<open>parse_articles\<close>\<close>

text \<open>
  What the selectors read off one \<^verbatim>\<open>article.post-block\<close>:
  \<^item> \<open>title_elem\<close>: the element \<^verbatim>\<open>h2.post-block__title a\<close> if there is one, with its
    stripped text and its \<^verbatim>\<open>href\<close> attribute if it has one;
  \<^item> \<open>date_elem\<close>: the first \<^verbatim>\<open>time\<close> element if there is one, with its \<^verbatim>\<open>datetime\<close>
    attribute if it has one;
  \<^item> \<open>excerpt_elem\<close>: the stripped text of \<^verbatim>\<open>div.post-block__content\<close> if there is one.
\<close>

record link =
  link_text :: string
  href :: "string option"

record block =
  title_elem :: "link option"
  date_elem :: "string option option"
  excerpt_elem :: "string option"

record article =
  title :: string
  url :: string
  date_published :: string
  excerpt :: string

type_synonym joiner = "string \<Rightarrow> string \<Rightarrow> error + string"

text \<open>
  The body of the inner \<^verbatim>\<open>try\<close>: \<open>Inl\<close> when a statement raises (\<^verbatim>\<open>urljoin\<close>, or
  \<^verbatim>\<open>date_elem['datetime']\<close> on a \<^verbatim>\<open>time\<close> element without that attribute),
  \<open>Inr None\<close> when the guard \<^verbatim>\<open>if title and url\<close> fails, \<open>Inr (Some a)\<close> when the
  record \<open>a\<close> is appended.
\<close>

definition parse_block :: "joiner \<Rightarrow> string \<Rightarrow> block \<Rightarrow> error + article option" where
  "parse_block urljoin base b =
     (let t = (case title_elem b of Some l \<Rightarrow> link_text l | None \<Rightarrow> []);
          joined =
            (case title_elem b of
               Some l \<Rightarrow>
                 (case href l of
                    Some h \<Rightarrow> if h \<noteq> [] then urljoin base h else Inr []
                  | None \<Rightarrow> Inr [])
             | None \<Rightarrow> Inr [])
      in case joined of
           Inl e \<Rightarrow> Inl e
         | Inr u \<Rightarrow>
             (case date_elem b of
                Some None \<Rightarrow> Inl KeyError
              | dt \<Rightarrow>
                  (let d = (case dt of Some (Some v) \<Rightarrow> v | _ \<Rightarrow> []);
                       x = (case excerpt_elem b of Some v \<Rightarrow> v | None \<Rightarrow> [])
                   in if t \<noteq> [] \<and> u \<noteq> []
                      then Inr (Some \<lparr>title = t, url = u, date_published = d, excerpt = x\<rparr>)
                      else Inr None)))"

text \<open>The loop over the blocks: a block that raised is logged and passed over.\<close>

fun parse_blocks :: "joiner \<Rightarrow> string \<Rightarrow> block list \<Rightarrow> article list" where
  "parse_blocks urljoin base [] = []"
| "parse_blocks urljoin base (b # bs) =
     (case parse_block urljoin base b of
        Inr (Some a) \<Rightarrow> a # parse_blocks urljoin base bs
      | Inr None \<Rightarrow> parse_blocks urljoin base bs
      | Inl e \<Rightarrow> parse_blocks urljoin base bs)"

type_synonym selector = "string \<Rightarrow> block list option"

definition parse_articles :: "selector \<Rightarrow> joiner \<Rightarrow> string \<Rightarrow> string \<Rightarrow> article list" where
  "parse_articles select urljoin base html =
     (case select html of
        None \<Rightarrow> []
      | Some blocks \<Rightarrow> parse_blocks urljoin base blocks)"




subsection \<open>The table \<^verbatim>\<open>articles\<close> and \<^verbatim>\<open>save_articles\<close>\<close>

text \<open>
  A row of the table, without its \<^verbatim>\<open>id\<close>: rows are never deleted, so the list is in
  insertion order and the \<^verbatim>\<open>AUTOINCREMENT\<close> id of a row is its position plus one.
\<close>

record row = article +
  scraped_at :: string

definition mk_row :: "article \<Rightarrow> string \<Rightarrow> row" where
  "mk_row a stamp =
     \<lparr>title = title a, url = url a, date_published = date_published a,
      excerpt = excerpt a, scraped_at = stamp\<rparr>"

text \<open>\<^verbatim>\<open>INSERT OR IGNORE\<close> under \<^verbatim>\<open>url TEXT UNIQUE\<close>.\<close>

definition insert_or_ignore :: "row \<Rightarrow> row list \<Rightarrow> row list" where
  "insert_or_ignore r tbl = (if url r \<in> set (map url tbl) then tbl else tbl @ [r])"

fun save_loop :: "string \<Rightarrow> article list \<Rightarrow> row list \<Rightarrow> row list" where
  "save_loop stamp [] tbl = tbl"
| "save_loop stamp (a # as) tbl = save_loop stamp as (insert_or_ignore (mk_row a stamp) tbl)"

definition save_articles :: "string \<Rightarrow> article list \<Rightarrow> row list \<Rightarrow> row list" where
  "save_articles stamp articles tbl = save_loop stamp articles tbl"

subsection \<open>\<^verbatim>\<open>scrape\<close>\<close>

record env =
  server :: "string \<Rightarrow> nat \<Rightarrow> reply"
  select_blocks :: selector
  url_join :: joiner

record world =
  db :: "row list"
  trace :: "event list"

definition log_events :: "event list \<Rightarrow> world \<Rightarrow> world" where
  "log_events evs w = w\<lparr>trace := trace w @ evs\<rparr>"

text \<open>Python's \<^verbatim>\<open>str\<close> of a natural number, for the f-string of the page URL.\<close>

function str_nat :: "nat \<Rightarrow> string" where
  "str_nat n = (if n < 10 then [char_of (48 + n)]
                else str_nat (n div 10) @ [char_of (48 + n mod 10)])"
  by pat_completeness auto
termination
  by (relation "measure (\<lambda>n. n)") auto

declare str_nat.simps [simp del]

definition page_url :: "string \<Rightarrow> nat \<Rightarrow> string" where
  "page_url base page = (if page > 1 then base @ ''page/'' @ str_nat page @ ''/'' else base)"

text \<open>The body of the page loop after the fetch has returned \<open>html\<close> (lines 152 to 161).\<close>

definition process_page :: "env \<Rightarrow> string \<Rightarrow> (nat \<Rightarrow> string) \<Rightarrow> nat \<Rightarrow> string \<Rightarrow> world \<Rightarrow> world" where
  "process_page E base utcnow page html w =
     (if html = [] then w
      else
        (let articles = parse_articles (select_blocks E) (url_join E) base html;
             w1 = (if articles \<noteq> []
                   then w\<lparr>db := save_articles (utcnow page) articles (db w)\<rparr>
                   else w)
         in log_events [Sleep 2] w1))"

text \<open>
  The loop \<^verbatim>\<open>for page in range(1, max_pages + 1)\<close>. An exception that leaves
  \<^verbatim>\<open>fetch_page\<close> is not caught by \<^verbatim>\<open>scrape\<close>: it ends the crawl.
\<close>

fun scrape_pages :: "env \<Rightarrow> string \<Rightarrow> (nat \<Rightarrow> string) \<Rightarrow> nat list \<Rightarrow> world \<Rightarrow> (error + unit) \<times> world" where
  "scrape_pages E base utcnow [] w = (Inr (), w)"
| "scrape_pages E base utcnow (page # pages) w =
     (let u = page_url base page;
          r = fetch_page u (server E u);
          w1 = log_events (snd r) w
      in case fst r of
           Inl e \<Rightarrow> (Inl e, w1)
         | Inr html \<Rightarrow> scrape_pages E base utcnow pages (process_page E base utcnow page html w1))"

definition scrape :: "env \<Rightarrow> string \<Rightarrow> (nat \<Rightarrow> string) \<Rightarrow> int \<Rightarrow> world \<Rightarrow> (error + unit) \<times> world" where
  "scrape E base utcnow max_pages w =
     scrape_pages E base utcnow [1 ..< nat (max_pages + 1)] w"

subsection \<open>Concrete inputs\<close>

text \<open>
  Inputs for evaluating the model. \<open>urljoin_rel\<close> is what \<^verbatim>\<open>urllib.parse.urljoin\<close>
  returns for an http(s) base with a path and a reference that is a relative path: no
  scheme, no authority, no leading slash, no dot segment and no \<^verbatim>\<open>;\<close>, \<^verbatim>\<open>?\<close> or \<^verbatim>\<open>#\<close>
  (the reference replaces what follows the last slash of the base). It is used at such
  references only.
\<close>

definition urljoin_rel :: joiner where
  "urljoin_rel base ref =
     Inr (if ref = [] then base else if base = [] then ref
          else rev (dropWhile (\<lambda>c. c \<noteq> CHR ''/'') (rev base)) @ ref)"

definition default_base_url :: string where
  "default_base_url = ''https://techcrunch.com/category/startups/''"

definition item :: "string \<Rightarrow> string \<Rightarrow> block" where
  "item t h =
     \<lparr>title_elem = Some \<lparr>link_text = t, href = Some h\<rparr>,
      date_elem = Some (Some ''2024-05-01T09:00:00+00:00''),
      excerpt_elem = Some ''Funding news''\<rparr>"

text \<open>
  A stand-in for the HTML parser on a toy page format: every character of the page
  other than \<^verbatim>\<open>-\<close> is one item block, titled by the character and linking to the
  relative path of that name.
\<close>

definition toy_select :: selector where
  "toy_select html = Some (map (\<lambda>c. item [c] ([c] @ ''/'')) (filter (\<lambda>c. c \<noteq> CHR ''-'') html))"

definition always :: "reply \<Rightarrow> nat \<Rightarrow> reply" where
  "always r k = r"

text \<open>A site serving \<open>targets ! 0\<close> as page 1, \<open>targets ! 1\<close> as page 2 and so on.\<close>

definition site :: "string \<Rightarrow> (nat \<Rightarrow> reply) list \<Rightarrow> string \<Rightarrow> nat \<Rightarrow> reply" where
  "site base targets u =
     (case find (\<lambda>p. page_url base p = u) [1 ..< Suc (length targets)] of
        Some p \<Rightarrow> targets ! (p - 1)
      | None \<Rightarrow> always (Response 404 [] []))"

definition toy_env :: "(nat \<Rightarrow> reply) list \<Rightarrow> env" where
  "toy_env targets =
     \<lparr>server = site default_base_url targets, select_blocks = toy_select,
      url_join = urljoin_rel\<rparr>"

definition fresh_world :: world where
  "fresh_world = \<lparr>db = [], trace = []\<rparr>"

definition monday :: "nat \<Rightarrow> string" where
  "monday page = ''2024-05-06T08:00:00''"

definition tuesday :: "nat \<Rightarrow> string" where
  "tuesday page = ''2024-05-07T08:00:00''"

section \<open>Properties\<close>

subsection \<open>The fetch loop, one attempt at a time\<close>

lemma emit_pair: "emit evs (x, tr) = (x, evs @ tr)"
  by (simp add: emit_def)

lemma fetch_loop_done: "\<not> attempt < max_retries \<Longrightarrow> fetch_loop max_retries attempt u get = (Inr [], [])"
  by (simp add: fetch_loop.simps)

lemma fetch_loop_200:
  "attempt < max_retries \<Longrightarrow> get attempt = Response 200 hs b
    \<Longrightarrow> fetch_loop max_retries attempt u get = (Inr b, [Get u])"
  by (simp add: fetch_loop.simps [of max_retries attempt] emit_def)

lemma fetch_loop_other:
  "attempt < max_retries \<Longrightarrow> get attempt = Response st hs b \<Longrightarrow> st \<noteq> 200 \<Longrightarrow> st \<noteq> 429
    \<Longrightarrow> fetch_loop max_retries attempt u get = (Inr [], [Get u])"
  by (simp add: fetch_loop.simps [of max_retries attempt] emit_def)

lemma fetch_loop_429:
  "attempt < max_retries \<Longrightarrow> get attempt = Response 429 hs b \<Longrightarrow> retry_after hs = Inr d
    \<Longrightarrow> fetch_loop max_retries attempt u get
        = emit [Get u, Sleep d] (fetch_loop max_retries (Suc attempt) u get)"
  by (simp add: fetch_loop.simps [of max_retries attempt] emit_def)

lemma fetch_loop_429_raises:
  "attempt < max_retries \<Longrightarrow> get attempt = Response 429 hs b \<Longrightarrow> retry_after hs = Inl e
    \<Longrightarrow> fetch_loop max_retries attempt u get = (Inl e, [Get u])"
  by (simp add: fetch_loop.simps [of max_retries attempt] emit_def)

lemma fetch_loop_error_retry:
  "Suc attempt < max_retries \<Longrightarrow> get attempt = ClientError
    \<Longrightarrow> fetch_loop max_retries attempt u get
        = emit [Get u, Sleep (2 ^ attempt)] (fetch_loop max_retries (Suc attempt) u get)"
  by (simp add: fetch_loop.simps [of max_retries attempt] emit_def)

lemma fetch_loop_error_last:
  "Suc attempt = max_retries \<Longrightarrow> get attempt = ClientError
    \<Longrightarrow> fetch_loop max_retries attempt u get = (Inr [], [Get u])"
  by (simp add: fetch_loop.simps [of max_retries attempt] fetch_loop_done emit_def)

lemma fails_then_succeeds:
  "a \<le> n \<Longrightarrow> fetch_loop (Suc n) a u (fails_then n b)
     = (Inr b, concat (map (\<lambda>k. [Get u, Sleep (2 ^ k)]) [a ..< n]) @ [Get u])"
proof (induction "n - a" arbitrary: a)
  case 0
  then have "a = n" by simp
  moreover have "fails_then n b n = Response 200 [] b"
    by (simp add: fails_then_def)
  ultimately show ?case
    using fetch_loop_200 [of n "Suc n" "fails_then n b" "[]" b u] by simp
next
  case (Suc d)
  then have lt: "a < n" by simp
  have step: "fetch_loop (Suc n) a u (fails_then n b)
      = emit [Get u, Sleep (2 ^ a)] (fetch_loop (Suc n) (Suc a) u (fails_then n b))"
    using lt by (intro fetch_loop_error_retry) (simp_all add: fails_then_def)
  have ih: "fetch_loop (Suc n) (Suc a) u (fails_then n b)
      = (Inr b, concat (map (\<lambda>k. [Get u, Sleep (2 ^ k)]) [Suc a ..< n]) @ [Get u])"
    using Suc lt by (intro Suc.hyps(1)) simp_all
  show ?case
    using lt by (simp add: step ih emit_pair upt_conv_Cons)
qed

lemma fails_then_exhausted:
  "a \<le> n \<Longrightarrow> fetch_loop n a u (fails_then n b)
     = (Inr [], concat (map (\<lambda>k. [Get u, Sleep (2 ^ k)]) [a ..< n - 1])
                @ (if a < n then [Get u] else []))"
proof (induction "n - a" arbitrary: a)
  case 0
  then have "a = n" by simp
  then show ?case by (simp add: fetch_loop_done)
next
  case (Suc d)
  then have lt: "a < n" by simp
  show ?case
  proof (cases "Suc a = n")
    case True
    moreover have "fails_then n b a = ClientError"
      using lt by (simp add: fails_then_def)
    ultimately show ?thesis
      using fetch_loop_error_last [of a n "fails_then n b" u] by auto
  next
    case False
    with lt have lt2: "Suc a < n" by simp
    have step: "fetch_loop n a u (fails_then n b)
        = emit [Get u, Sleep (2 ^ a)] (fetch_loop n (Suc a) u (fails_then n b))"
      using lt2 by (intro fetch_loop_error_retry) (simp_all add: fails_then_def)
    have ih: "fetch_loop n (Suc a) u (fails_then n b)
        = (Inr [], concat (map (\<lambda>k. [Get u, Sleep (2 ^ k)]) [Suc a ..< n - 1])
                   @ (if Suc a < n then [Get u] else []))"
      using Suc lt by (intro Suc.hyps(1)) simp_all
    have "a < n - 1" using lt2 by simp
    then show ?thesis
      using lt lt2 by (simp add: step ih emit_pair upt_conv_Cons)
  qed
qed

lemma gets_bounded:
  "length (filter (\<lambda>e. e = Get u) (snd (fetch_loop max_retries attempt u get))) \<le> max_retries - attempt"
proof (induction max_retries attempt u get rule: fetch_loop.induct)
  case (1 max_retries attempt u get)
  show ?case
  proof (cases "attempt < max_retries")
    case False
    then show ?thesis by (simp add: fetch_loop_done)
  next
    case lt: True
    show ?thesis
    proof (cases "get attempt")
      case ClientError
      have "length (filter (\<lambda>e. e = Get u) (snd (fetch_loop max_retries (Suc attempt) u get)))
          \<le> max_retries - Suc attempt"
        using "1.IH"(2,3) [OF lt ClientError] by (cases "int attempt < int max_retries - 1") auto
      then show ?thesis
        using lt ClientError
        by (auto simp: fetch_loop.simps [of max_retries attempt] emit_def)
    next
      case (Response st hs b)
      show ?thesis
      proof (cases "retry_after hs")
        case (Inl e)
        then show ?thesis
          using lt Response by (simp add: fetch_loop.simps [of max_retries attempt] emit_def)
      next
        case (Inr d)
        then show ?thesis
          using lt Response "1.IH"(1) [OF lt Response _ _ Inr]
          by (auto simp: fetch_loop.simps [of max_retries attempt] emit_def)
      qed
    qed
  qed
qed

subsection \<open>What a returned string says about the replies\<close>

lemma retry_after_absent: "retry_after [] = Inr 5"
  by (simp add: retry_after_def header_get_def)

lemma retry_after_seven: "retry_after [(''Retry-After'', ''7'')] = Inr 7"
  by code_simp

lemma seven_below_float_limit: "7 < float_limit"
  by (simp add: float_limit_def)

lemma three_errors_trace:
  assumes "\<forall>k<3. get k = ClientError"
  shows "fetch_page u get = (Inr [], [Get u, Sleep 1, Get u, Sleep 2, Get u])"
proof -
  have g: "get 0 = ClientError" "get (Suc 0) = ClientError" "get (Suc (Suc 0)) = ClientError"
    using assms by simp_all
  have "fetch_loop 3 (Suc (Suc 0)) u get = (Inr [], [Get u])"
    using g(3) by (intro fetch_loop_error_last) simp_all
  moreover have "fetch_loop 3 (Suc 0) u get
      = emit [Get u, Sleep (2 ^ Suc 0)] (fetch_loop 3 (Suc (Suc 0)) u get)"
    using g(2) by (intro fetch_loop_error_retry) simp_all
  moreover have "fetch_loop 3 0 u get = emit [Get u, Sleep (2 ^ 0)] (fetch_loop 3 (Suc 0) u get)"
    using g(1) by (intro fetch_loop_error_retry) simp_all
  ultimately show ?thesis by (simp add: fetch_page_def emit_def)
qed

lemma get_in_fetch_page: "Get u \<in> set (snd (fetch_page u get))"
  by (simp add: fetch_page_def fetch_loop.simps [of 3 0] emit_def)

subsection \<open>Blocks that are passed over\<close>













subsection \<open>The table only grows, by rows with new urls\<close>

lemma url_mk_row: "url (mk_row a stamp) = url a"
  by (simp add: mk_row_def)

lemma insert_or_ignore_present:
  "url r \<in> url ` set tbl \<Longrightarrow> insert_or_ignore r tbl = tbl"
  by (simp add: insert_or_ignore_def)

lemma urls_insert_or_ignore:
  "url ` set (insert_or_ignore r tbl) = insert (url r) (url ` set tbl)"
  by (auto simp: insert_or_ignore_def)

lemma urls_save_loop:
  "url ` set (save_loop stamp as tbl) = url ` set tbl \<union> url ` set as"
  by (induction as arbitrary: tbl) (auto simp: urls_insert_or_ignore url_mk_row)

lemma save_loop_present:
  "url ` set as \<subseteq> url ` set tbl \<Longrightarrow> save_loop stamp as tbl = tbl"
  by (induction as arbitrary: tbl) (auto simp: insert_or_ignore_def url_mk_row)

lemma save_loop_extends:
  "\<exists>new. save_loop stamp as tbl = tbl @ new \<and> distinct (map url new)
     \<and> url ` set new \<inter> url ` set tbl = {}"
proof (induction as arbitrary: tbl)
  case Nil
  show ?case by simp
next
  case (Cons a as)
  obtain new where n: "save_loop stamp as (insert_or_ignore (mk_row a stamp) tbl)
      = insert_or_ignore (mk_row a stamp) tbl @ new"
    "distinct (map url new)"
    "url ` set new \<inter> url ` set (insert_or_ignore (mk_row a stamp) tbl) = {}"
    using Cons.IH by blast
  show ?case
  proof (cases "url (mk_row a stamp) \<in> url ` set tbl")
    case True
    then have "insert_or_ignore (mk_row a stamp) tbl = tbl"
      by (rule insert_or_ignore_present)
    with n show ?thesis by auto
  next
    case False
    then have e: "insert_or_ignore (mk_row a stamp) tbl = tbl @ [mk_row a stamp]"
      by (simp add: insert_or_ignore_def)
    have "save_loop stamp (a # as) tbl = tbl @ (mk_row a stamp # new)"
      using n(1) e by simp
    moreover have "distinct (map url (mk_row a stamp # new))"
      using n(2,3) e by auto
    moreover have "url ` set (mk_row a stamp # new) \<inter> url ` set tbl = {}"
      using n(3) e False by auto
    ultimately show ?thesis by blast
  qed
qed

lemma db_log_events: "db (log_events evs w) = db w"
  by (simp add: log_events_def)

lemma db_process_page:
  "db (process_page E base utcnow page html w) =
     (if html = [] then db w
      else save_loop (utcnow page) (parse_articles (select_blocks E) (url_join E) base html) (db w))"
  by (simp add: process_page_def Let_def db_log_events save_articles_def)

lemma process_page_extends:
  "\<exists>new. db (process_page E base utcnow page html w) = db w @ new \<and> distinct (map url new)
     \<and> url ` set new \<inter> url ` set (db w) = {}"
  using save_loop_extends by (simp add: db_process_page)

lemma extends_trans:
  assumes "b = a @ n1" "distinct (map url n1)" "url ` set n1 \<inter> url ` set a = {}"
    and "c = b @ n2" "distinct (map url n2)" "url ` set n2 \<inter> url ` set b = {}"
  shows "\<exists>new. c = a @ new \<and> distinct (map url new) \<and> url ` set new \<inter> url ` set a = {}"
proof -
  have "c = a @ (n1 @ n2)" using assms by simp
  moreover have "distinct (map url (n1 @ n2))" using assms by auto
  moreover have "url ` set (n1 @ n2) \<inter> url ` set a = {}" using assms by auto
  ultimately show ?thesis by blast
qed

lemma scrape_pages_extends:
  "\<exists>new. db (snd (scrape_pages E base utcnow pages w)) = db w @ new \<and> distinct (map url new)
     \<and> url ` set new \<inter> url ` set (db w) = {}"
proof (induction pages arbitrary: w)
  case Nil
  show ?case by simp
next
  case (Cons p ps)
  let ?u = "page_url base p"
  let ?r = "fetch_page ?u (server E ?u)"
  let ?w1 = "log_events (snd ?r) w"
  show ?case
  proof (cases "fst ?r")
    case (Inl e)
    then show ?thesis by (simp add: Let_def db_log_events)
  next
    case (Inr html)
    let ?w2 = "process_page E base utcnow p html ?w1"
    obtain n1 where n1: "db ?w2 = db w @ n1" "distinct (map url n1)"
        "url ` set n1 \<inter> url ` set (db w) = {}"
      using process_page_extends [of E base utcnow p html ?w1] by (auto simp: db_log_events)
    obtain n2 where n2: "db (snd (scrape_pages E base utcnow ps ?w2)) = db ?w2 @ n2"
        "distinct (map url n2)" "url ` set n2 \<inter> url ` set (db ?w2) = {}"
      using Cons.IH [of ?w2] by blast
    have "scrape_pages E base utcnow (p # ps) w = scrape_pages E base utcnow ps ?w2"
      using Inr by (simp add: Let_def)
    then show ?thesis
      using extends_trans [OF n1 n2] by simp
  qed
qed

lemma urls_scrape_pages_mono:
  "url ` set (db w) \<subseteq> url ` set (db (snd (scrape_pages E base utcnow pages w)))"
proof -
  obtain new where "db (snd (scrape_pages E base utcnow pages w)) = db w @ new"
    using scrape_pages_extends by blast
  then show ?thesis by auto
qed

lemma scrape_pages_rerun:
  "url ` set (db (snd (scrape_pages E base clk1 pages w))) \<subseteq> url ` set (db w')
    \<Longrightarrow> db (snd (scrape_pages E base clk2 pages w')) = db w'"
proof (induction pages arbitrary: w w')
  case Nil
  show ?case by simp
next
  case (Cons p ps)
  let ?u = "page_url base p"
  let ?r = "fetch_page ?u (server E ?u)"
  show ?case
  proof (cases "fst ?r")
    case (Inl e)
    then show ?thesis by (simp add: Let_def db_log_events)
  next
    case (Inr html)
    let ?wa = "process_page E base clk1 p html (log_events (snd ?r) w)"
    let ?wb = "process_page E base clk2 p html (log_events (snd ?r) w')"
    have ra: "scrape_pages E base clk1 (p # ps) w = scrape_pages E base clk1 ps ?wa"
      using Inr by (simp add: Let_def)
    have rb: "scrape_pages E base clk2 (p # ps) w' = scrape_pages E base clk2 ps ?wb"
      using Inr by (simp add: Let_def)
    have sub: "url ` set (db ?wa) \<subseteq> url ` set (db w')"
      using urls_scrape_pages_mono [of ?wa E base clk1 ps] Cons.prems ra by auto
    have same: "db ?wb = db w'"
    proof (cases "html = []")
      case True
      then show ?thesis by (simp add: db_process_page db_log_events)
    next
      case False
      let ?as = "parse_articles (select_blocks E) (url_join E) base html"
      have "url ` set ?as \<subseteq> url ` set (db ?wa)"
        using False by (simp add: db_process_page urls_save_loop)
      then have "url ` set ?as \<subseteq> url ` set (db w')"
        using sub by blast
      then show ?thesis
        using False by (simp add: db_process_page db_log_events save_loop_present)
    qed
    have "url ` set (db (snd (scrape_pages E base clk1 ps ?wa))) \<subseteq> url ` set (db ?wb)"
      using Cons.prems ra same by simp
    then have "db (snd (scrape_pages E base clk2 ps ?wb)) = db ?wb"
      by (rule Cons.IH)
    then show ?thesis using rb same by simp
  qed
qed

subsection \<open>The page loop\<close>

lemma process_page_empty: "process_page E base utcnow page [] w = w"
  by (simp add: process_page_def)

lemma scrape_pages_skip:
  "fetch_page (page_url base page) (server E (page_url base page)) = (Inr [], evs)
    \<Longrightarrow> scrape_pages E base utcnow (page # pages) w
        = scrape_pages E base utcnow pages (log_events evs w)"
  by (simp add: Let_def process_page_def)

lemma trace_log_events: "trace (log_events evs w) = trace w @ evs"
  by (simp add: log_events_def)

lemma trace_process_page: "set (trace w) \<subseteq> set (trace (process_page E base utcnow page html w))"
  by (auto simp: process_page_def Let_def log_events_def)

lemma trace_scrape_pages: "set (trace w) \<subseteq> set (trace (snd (scrape_pages E base utcnow pages w)))"
proof (induction pages arbitrary: w)
  case Nil
  show ?case by simp
next
  case (Cons p ps)
  let ?r = "fetch_page (page_url base p) (server E (page_url base p))"
  show ?case
  proof (cases "fst ?r")
    case (Inl e)
    then show ?thesis by (auto simp: Let_def trace_log_events)
  next
    case (Inr html)
    let ?w2 = "process_page E base utcnow p html (log_events (snd ?r) w)"
    have "set (trace w) \<subseteq> set (trace ?w2)"
      using trace_process_page [of "log_events (snd ?r) w" E base utcnow p html]
      by (auto simp: trace_log_events)
    also have "\<dots> \<subseteq> set (trace (snd (scrape_pages E base utcnow ps ?w2)))"
      by (rule Cons.IH)
    finally show ?thesis using Inr by (simp add: Let_def)
  qed
qed

lemma scrape_pages_fetches_all:
  "fst (scrape_pages E base utcnow pages w) = Inr () \<Longrightarrow> p \<in> set pages
    \<Longrightarrow> Get (page_url base p) \<in> set (trace (snd (scrape_pages E base utcnow pages w)))"
proof (induction pages arbitrary: w)
  case Nil
  then show ?case by simp
next
  case (Cons q qs)
  let ?r = "fetch_page (page_url base q) (server E (page_url base q))"
  show ?case
  proof (cases "fst ?r")
    case (Inl e)
    then show ?thesis using Cons.prems(1) by (simp add: Let_def)
  next
    case (Inr html)
    let ?w2 = "process_page E base utcnow q html (log_events (snd ?r) w)"
    have eq: "scrape_pages E base utcnow (q # qs) w = scrape_pages E base utcnow qs ?w2"
      using Inr by (simp add: Let_def)
    show ?thesis
    proof (cases "p = q")
      case True
      have "Get (page_url base q) \<in> set (trace (log_events (snd ?r) w))"
        using get_in_fetch_page by (simp add: trace_log_events)
      then have "Get (page_url base q) \<in> set (trace ?w2)"
        using trace_process_page by blast
      then have "Get (page_url base q) \<in> set (trace (snd (scrape_pages E base utcnow qs ?w2)))"
        using trace_scrape_pages by blast
      then show ?thesis using True eq by simp
    next
      case False
      then have "p \<in> set qs" using Cons.prems(2) by simp
      moreover have "fst (scrape_pages E base utcnow qs ?w2) = Inr ()"
        using Cons.prems(1) eq by simp
      ultimately show ?thesis using Cons.IH eq by simp
    qed
  qed
qed

subsection \<open>Evaluations on the concrete inputs\<close>

lemma scrape_twice_eval:
  "db (snd (scrape (toy_env [always (Response 200 [] ''ab''), always (Response 200 [] ''bc'')])
             default_base_url monday 2 fresh_world))
   = [mk_row \<lparr>title = ''a'', url = ''https://techcrunch.com/category/startups/a/'',
               date_published = ''2024-05-01T09:00:00+00:00'', excerpt = ''Funding news''\<rparr>
         ''2024-05-06T08:00:00'',
      mk_row \<lparr>title = ''b'', url = ''https://techcrunch.com/category/startups/b/'',
               date_published = ''2024-05-01T09:00:00+00:00'', excerpt = ''Funding news''\<rparr>
         ''2024-05-06T08:00:00'',
      mk_row \<lparr>title = ''c'', url = ''https://techcrunch.com/category/startups/c/'',
               date_published = ''2024-05-01T09:00:00+00:00'', excerpt = ''Funding news''\<rparr>
         ''2024-05-06T08:00:00'']"
  by code_simp

lemma toy_server_page1:
  "server (toy_env [always (Response 500 [] ''oops''), always (Response 200 [] ''a'')])
     (page_url default_base_url 1) 0 = Response 500 [] ''oops''"
  by code_simp

lemma toy_server_down:
  "server (toy_env [always ClientError, always (Response 200 [] ''a'')])
     (page_url default_base_url 1) k = ClientError"
  by (simp add: toy_env_def site_def page_url_def always_def upt_rec)

lemma toy_page_two:
  "fetch_page (page_url default_base_url 2)
      (server (toy_env [always (Response 200 [] ''a''), always (Response 200 [] ''-''),
                        always (Response 200 [] ''b'')]) (page_url default_base_url 2))
     = (Inr ''-'', [Get (page_url default_base_url 2)])
   \<and> parse_articles
        (select_blocks (toy_env [always (Response 200 [] ''a''), always (Response 200 [] ''-''),
                        always (Response 200 [] ''b'')]))
        (url_join (toy_env [always (Response 200 [] ''a''), always (Response 200 [] ''-''),
                        always (Response 200 [] ''b'')])) default_base_url ''-'' = []
   \<and> fst (scrape (toy_env [always (Response 200 [] ''a''), always (Response 200 [] ''-''),
                        always (Response 200 [] ''b'')]) default_base_url monday 3 fresh_world) = Inr ()"
  by code_simp

subsection \<open>Idempotence of a crawl\<close>

text \<open>
  Claim C1. Two crawls of the same site against the same table, whatever the clock
  reads: the second crawl leaves the table as the first left it, so it inserts no row.
  A crawl only appends rows; the urls of the rows it appends are pairwise distinct and
  none of them was in the table before, so a table with distinct urls keeps distinct
  urls through any sequence of crawls.
\<close>

theorem scrape_idempotent:
  "db (snd (scrape E base clk2 max_pages (snd (scrape E base clk1 max_pages w))))
     = db (snd (scrape E base clk1 max_pages w))
   \<and> (\<exists>new. db (snd (scrape E base clk1 max_pages w)) = db w @ new
          \<and> distinct (map url new) \<and> set (map url new) \<inter> set (map url (db w)) = {})
   \<and> (distinct (map url (db w))
        \<longrightarrow> distinct (map url (db (snd (scrape E base clk1 max_pages w)))))"
proof (intro conjI impI)
  let ?ps = "[1 ..< nat (max_pages + 1)]"
  let ?w1 = "snd (scrape_pages E base clk1 ?ps w)"
  have "url ` set (db (snd (scrape_pages E base clk1 ?ps w))) \<subseteq> url ` set (db ?w1)"
    by simp
  then have "db (snd (scrape_pages E base clk2 ?ps ?w1)) = db ?w1"
    by (rule scrape_pages_rerun)
  then show "db (snd (scrape E base clk2 max_pages (snd (scrape E base clk1 max_pages w))))
     = db (snd (scrape E base clk1 max_pages w))"
    by (simp add: scrape_def)
next
  obtain new where n: "db (snd (scrape E base clk1 max_pages w)) = db w @ new"
      "distinct (map url new)" "url ` set new \<inter> url ` set (db w) = {}"
    using scrape_pages_extends [of E base clk1 "[1 ..< nat (max_pages + 1)]" w]
    unfolding scrape_def by blast
  then show "\<exists>new. db (snd (scrape E base clk1 max_pages w)) = db w @ new
          \<and> distinct (map url new) \<and> set (map url new) \<inter> set (map url (db w)) = {}"
    by auto
  assume "distinct (map url (db w))"
  with n show "distinct (map url (db (snd (scrape E base clk1 max_pages w))))"
    by auto
qed

theorem scrape_idempotent_witness:
  "length (db (snd (scrape (toy_env [always (Response 200 [] ''ab''), always (Response 200 [] ''bc'')])
                      default_base_url tuesday 2
                 (snd (scrape (toy_env [always (Response 200 [] ''ab''), always (Response 200 [] ''bc'')])
                         default_base_url monday 2 fresh_world))))) = 3
   \<and> map scraped_at
        (db (snd (scrape (toy_env [always (Response 200 [] ''ab''), always (Response 200 [] ''bc'')])
                      default_base_url tuesday 2
                 (snd (scrape (toy_env [always (Response 200 [] ''ab''), always (Response 200 [] ''bc'')])
                         default_base_url monday 2 fresh_world)))))
      = [''2024-05-06T08:00:00'', ''2024-05-06T08:00:00'', ''2024-05-06T08:00:00'']
   \<and> distinct (map url
        (db (snd (scrape (toy_env [always (Response 200 [] ''ab''), always (Response 200 [] ''bc'')])
                         default_base_url monday 2 fresh_world))))"
proof -
  let ?E = "toy_env [always (Response 200 [] ''ab''), always (Response 200 [] ''bc'')]"
  note t = scrape_idempotent [of ?E default_base_url tuesday 2 monday fresh_world]
  have d: "distinct (map url (db fresh_world))"
    by (simp add: fresh_world_def)
  have "db (snd (scrape ?E default_base_url tuesday 2 (snd (scrape ?E default_base_url monday 2 fresh_world))))
      = db (snd (scrape ?E default_base_url monday 2 fresh_world))"
    using t by blast
  moreover have "distinct (map url (db (snd (scrape ?E default_base_url monday 2 fresh_world))))"
    using t d by blast
  ultimately show ?thesis
    by (simp add: scrape_twice_eval mk_row_def)
qed

subsection \<open>Failed and empty pages\<close>

text \<open>
  Claim C2, as amended. A page whose fetch fails is skipped and the crawl goes on with
  the next page: after a status other than 200 and 429, after three network errors,
  and whenever \<^verbatim>\<open>fetch_page\<close> returns the empty string, the rest of the page list is
  crawled from a world in which only the trace has grown (nothing parsed, nothing
  stored, no delay of 2 seconds).
\<close>

theorem failed_page_is_skipped:
  "(server E (page_url base page) 0 = Response st hs b \<and> st \<noteq> 200 \<and> st \<noteq> 429 \<longrightarrow>
      scrape_pages E base utcnow (page # pages) w
        = scrape_pages E base utcnow pages (log_events [Get (page_url base page)] w))
   \<and> ((\<forall>k<3. server E (page_url base page) k = ClientError) \<longrightarrow>
      scrape_pages E base utcnow (page # pages) w
        = scrape_pages E base utcnow pages
            (log_events [Get (page_url base page), Sleep 1, Get (page_url base page), Sleep 2,
                         Get (page_url base page)] w))
   \<and> (fst (fetch_page (page_url base page) (server E (page_url base page))) = Inr [] \<longrightarrow>
      scrape_pages E base utcnow (page # pages) w
        = scrape_pages E base utcnow pages
            (log_events (snd (fetch_page (page_url base page) (server E (page_url base page)))) w))"
proof (intro conjI impI)
  let ?u = "page_url base page"
  assume "server E ?u 0 = Response st hs b \<and> st \<noteq> 200 \<and> st \<noteq> 429"
  then have "fetch_page ?u (server E ?u) = (Inr [], [Get ?u])"
    using fetch_loop_other [of 0 3 "server E ?u" st hs b ?u] by (simp add: fetch_page_def)
  then show "scrape_pages E base utcnow (page # pages) w
        = scrape_pages E base utcnow pages (log_events [Get ?u] w)"
    by (rule scrape_pages_skip)
next
  let ?u = "page_url base page"
  assume "\<forall>k<3. server E ?u k = ClientError"
  then have "fetch_page ?u (server E ?u) = (Inr [], [Get ?u, Sleep 1, Get ?u, Sleep 2, Get ?u])"
    by (rule three_errors_trace)
  then show "scrape_pages E base utcnow (page # pages) w
        = scrape_pages E base utcnow pages (log_events [Get ?u, Sleep 1, Get ?u, Sleep 2, Get ?u] w)"
    by (rule scrape_pages_skip)
next
  let ?u = "page_url base page"
  assume "fst (fetch_page ?u (server E ?u)) = Inr []"
  then have "fetch_page ?u (server E ?u) = (Inr [], snd (fetch_page ?u (server E ?u)))"
    by (metis prod.collapse)
  then show "scrape_pages E base utcnow (page # pages) w
        = scrape_pages E base utcnow pages (log_events (snd (fetch_page ?u (server E ?u))) w)"
    by (rule scrape_pages_skip)
qed

theorem failed_page_is_skipped_witness:
  "scrape_pages (toy_env [always (Response 500 [] ''oops''), always (Response 200 [] ''a'')])
       default_base_url monday [1, 2] fresh_world
     = scrape_pages (toy_env [always (Response 500 [] ''oops''), always (Response 200 [] ''a'')])
         default_base_url monday [2] (log_events [Get (page_url default_base_url 1)] fresh_world)
   \<and> scrape_pages (toy_env [always ClientError, always (Response 200 [] ''a'')])
       default_base_url monday [1, 2] fresh_world
     = scrape_pages (toy_env [always ClientError, always (Response 200 [] ''a'')])
         default_base_url monday [2]
         (log_events [Get (page_url default_base_url 1), Sleep 1, Get (page_url default_base_url 1),
                      Sleep 2, Get (page_url default_base_url 1)] fresh_world)
   \<and> scrape_pages (toy_env [always (Response 429 [] []), always (Response 200 [] ''a'')])
       default_base_url monday [1, 2] fresh_world
     = scrape_pages (toy_env [always (Response 429 [] []), always (Response 200 [] ''a'')])
         default_base_url monday [2]
         (log_events (snd (fetch_page (page_url default_base_url 1)
            (server (toy_env [always (Response 429 [] []), always (Response 200 [] ''a'')])
               (page_url default_base_url 1)))) fresh_world)"
proof (intro conjI)
  show "scrape_pages (toy_env [always (Response 500 [] ''oops''), always (Response 200 [] ''a'')])
       default_base_url monday [1, 2] fresh_world
     = scrape_pages (toy_env [always (Response 500 [] ''oops''), always (Response 200 [] ''a'')])
         default_base_url monday [2] (log_events [Get (page_url default_base_url 1)] fresh_world)"
    using failed_page_is_skipped
      [of "toy_env [always (Response 500 [] ''oops''), always (Response 200 [] ''a'')]"
        default_base_url 1 500 "[]" "''oops''" monday "[2]" fresh_world]
      toy_server_page1
    by simp
  show "scrape_pages (toy_env [always ClientError, always (Response 200 [] ''a'')])
       default_base_url monday [1, 2] fresh_world
     = scrape_pages (toy_env [always ClientError, always (Response 200 [] ''a'')])
         default_base_url monday [2]
         (log_events [Get (page_url default_base_url 1), Sleep 1, Get (page_url default_base_url 1),
                      Sleep 2, Get (page_url default_base_url 1)] fresh_world)"
    using failed_page_is_skipped
      [of "toy_env [always ClientError, always (Response 200 [] ''a'')]"
        default_base_url 1 _ _ _ monday "[2]" fresh_world]
      toy_server_down
    by simp
  have "fst (fetch_page (page_url default_base_url 1)
            (server (toy_env [always (Response 429 [] []), always (Response 200 [] ''a'')])
               (page_url default_base_url 1))) = Inr []"
    by code_simp
  then show "scrape_pages (toy_env [always (Response 429 [] []), always (Response 200 [] ''a'')])
       default_base_url monday [1, 2] fresh_world
     = scrape_pages (toy_env [always (Response 429 [] []), always (Response 200 [] ''a'')])
         default_base_url monday [2]
         (log_events (snd (fetch_page (page_url default_base_url 1)
            (server (toy_env [always (Response 429 [] []), always (Response 200 [] ''a'')])
               (page_url default_base_url 1)))) fresh_world)"
    using failed_page_is_skipped
      [of "toy_env [always (Response 429 [] []), always (Response 200 [] ''a'')]"
        default_base_url 1 _ _ _ monday "[2]" fresh_world]
    by blast
qed

text \<open>
  The claim as stated fails: page 1 answers 500 and page 2 fails with network errors
  three times, yet page 3 is fetched and its record is stored.
\<close>

theorem crawl_goes_on_after_failed_pages:
  "fst (fetch_page default_base_url (always (Response 500 [] ''oops''))) = Inr []
   \<and> fst (fetch_page (page_url default_base_url 2) (always ClientError)) = Inr []
   \<and> scrape (toy_env [always (Response 500 [] ''oops''), always ClientError,
                       always (Response 200 [] ''a'')])
        default_base_url monday 3 fresh_world
     = (Inr (),
        \<lparr>db = [mk_row \<lparr>title = ''a'', url = ''https://techcrunch.com/category/startups/a/'',
                date_published = ''2024-05-01T09:00:00+00:00'', excerpt = ''Funding news''\<rparr>
                ''2024-05-06T08:00:00''],
         trace = [Get ''https://techcrunch.com/category/startups/'',
                  Get ''https://techcrunch.com/category/startups/page/2/'', Sleep 1,
                  Get ''https://techcrunch.com/category/startups/page/2/'', Sleep 2,
                  Get ''https://techcrunch.com/category/startups/page/2/'',
                  Get ''https://techcrunch.com/category/startups/page/3/'', Sleep 2]\<rparr>)"
  by code_simp

text \<open>
  Claim C3, as amended. A page that is fetched and yields no record does not stop the
  crawl: nothing is stored for it, the driver sleeps its 2 seconds and goes on with
  the next page. A crawl that no exception ends requests every page from 1 to
  \<open>max_pages\<close>.
\<close>

theorem empty_page_does_not_stop:
  "(fetch_page (page_url base page) (server E (page_url base page)) = (Inr html, evs)
      \<and> html \<noteq> [] \<and> parse_articles (select_blocks E) (url_join E) base html = [] \<longrightarrow>
      scrape_pages E base utcnow (page # pages) w
        = scrape_pages E base utcnow pages (log_events (evs @ [Sleep 2]) w))
   \<and> (fst (scrape E base utcnow max_pages w) = Inr () \<and> 1 \<le> p \<and> int p \<le> max_pages \<longrightarrow>
      Get (page_url base p) \<in> set (trace (snd (scrape E base utcnow max_pages w))))"
proof (intro conjI impI)
  assume "fetch_page (page_url base page) (server E (page_url base page)) = (Inr html, evs)
      \<and> html \<noteq> [] \<and> parse_articles (select_blocks E) (url_join E) base html = []"
  then show "scrape_pages E base utcnow (page # pages) w
        = scrape_pages E base utcnow pages (log_events (evs @ [Sleep 2]) w)"
    by (simp add: Let_def process_page_def log_events_def)
next
  assume a: "fst (scrape E base utcnow max_pages w) = Inr () \<and> 1 \<le> p \<and> int p \<le> max_pages"
  then have "p \<in> set [1 ..< nat (max_pages + 1)]" by auto
  then show "Get (page_url base p) \<in> set (trace (snd (scrape E base utcnow max_pages w)))"
    using a scrape_pages_fetches_all [of E base utcnow "[1 ..< nat (max_pages + 1)]" w p]
    by (simp add: scrape_def)
qed

theorem empty_page_does_not_stop_witness:
  "scrape_pages (toy_env [always (Response 200 [] ''a''), always (Response 200 [] ''-''),
                          always (Response 200 [] ''b'')]) default_base_url monday [2, 3] fresh_world
     = scrape_pages (toy_env [always (Response 200 [] ''a''), always (Response 200 [] ''-''),
                          always (Response 200 [] ''b'')]) default_base_url monday [3]
         (log_events [Get (page_url default_base_url 2), Sleep 2] fresh_world)
   \<and> Get (page_url default_base_url 3)
       \<in> set (trace (snd (scrape (toy_env [always (Response 200 [] ''a''), always (Response 200 [] ''-''),
                          always (Response 200 [] ''b'')]) default_base_url monday 3 fresh_world)))"
proof -
  let ?E = "toy_env [always (Response 200 [] ''a''), always (Response 200 [] ''-''),
                          always (Response 200 [] ''b'')]"
  note t = empty_page_does_not_stop
    [of default_base_url 2 ?E "''-''" "[Get (page_url default_base_url 2)]" monday "[3]"
        fresh_world 3 3]
  have "scrape_pages ?E default_base_url monday [2, 3] fresh_world
     = scrape_pages ?E default_base_url monday [3]
         (log_events ([Get (page_url default_base_url 2)] @ [Sleep 2]) fresh_world)"
    using t toy_page_two by blast
  moreover have "fst (scrape ?E default_base_url monday 3 fresh_world) = Inr ()
      \<and> 1 \<le> (3::nat) \<and> int 3 \<le> 3"
    using toy_page_two by simp
  then have "Get (page_url default_base_url 3)
       \<in> set (trace (snd (scrape ?E default_base_url monday 3 fresh_world)))"
    using t by blast
  ultimately show ?thesis by simp
qed

text \<open>
  The claim as stated fails: with records on pages 1 and 2 and an empty page 3, the
  crawl for \<open>max_pages = 5\<close> also requests pages 4 and 5 and stores the record of
  page 4.
\<close>

theorem crawl_goes_on_after_empty_page:
  "parse_articles toy_select urljoin_rel default_base_url ''-'' = []
   \<and> scrape (toy_env [always (Response 200 [] ''ab''), always (Response 200 [] ''c''),
                       always (Response 200 [] ''-''), always (Response 200 [] ''d''),
                       always (Response 200 [] ''-'')])
        default_base_url monday 5 fresh_world
     = (Inr (),
        \<lparr>db = map (\<lambda>c. mk_row \<lparr>title = [c],
                        url = ''https://techcrunch.com/category/startups/'' @ [c] @ ''/'',
                        date_published = ''2024-05-01T09:00:00+00:00'',
                        excerpt = ''Funding news''\<rparr> ''2024-05-06T08:00:00'') ''abcd'',
         trace = [Get ''https://techcrunch.com/category/startups/'', Sleep 2,
                  Get ''https://techcrunch.com/category/startups/page/2/'', Sleep 2,
                  Get ''https://techcrunch.com/category/startups/page/3/'', Sleep 2,
                  Get ''https://techcrunch.com/category/startups/page/4/'', Sleep 2,
                  Get ''https://techcrunch.com/category/startups/page/5/'', Sleep 2]\<rparr>)"
  by code_simp

subsection \<open>Retry bound\<close>

text \<open>
  Claim C4. A target that fails with a network error \<open>n\<close> times and then answers 200:
  with \<open>max_retries = n + 1\<close> the loop returns the page body, with \<open>max_retries = n\<close>
  it returns the empty string, the code's value for exhausted retries. The trace shows
  a sleep of \<open>2 ^ attempt\<close> seconds between a failed attempt and the retry that follows
  it, and none after the last attempt. \<open>fetch_page\<close> is the loop at \<open>max_retries = 3\<close>.
\<close>

theorem retry_bound:
  "fetch_loop (Suc n) 0 u (fails_then n b)
     = (Inr b, concat (map (\<lambda>k. [Get u, Sleep (2 ^ k)]) [0 ..< n]) @ [Get u])
   \<and> fetch_loop n 0 u (fails_then n b)
     = (Inr [], concat (map (\<lambda>k. [Get u, Sleep (2 ^ k)]) [0 ..< n - 1])
                @ (if 0 < n then [Get u] else []))"
  using fails_then_succeeds [of 0 n u b] fails_then_exhausted [of 0 n u b] by simp

theorem retry_bound_witness:
  "fetch_page ''u'' (fails_then 2 ''body'')
     = (Inr ''body'', [Get ''u'', Sleep 1, Get ''u'', Sleep 2, Get ''u''])
   \<and> fetch_page ''u'' (fails_then 3 ''body'')
     = (Inr [], [Get ''u'', Sleep 1, Get ''u'', Sleep 2, Get ''u''])"
  using retry_bound [of 2 "''u''" "''body''"] retry_bound [of 3 "''u''" "''body''"]
  by (simp add: fetch_page_def numeral_3_eq_3 upt_rec)

subsection \<open>Rate limiting\<close>

text \<open>
  Claim C5, as amended. A 429 reply whose Retry-After reads as an integer \<open>d\<close> below
  \<open>float_limit\<close> (5 when the header is absent) makes the loop call
  \<^verbatim>\<open>asyncio.sleep(d)\<close> and go on with the next attempt of the same
  \<^verbatim>\<open>range(max_retries)\<close>: the wait takes one of the \<open>max_retries\<close> attempts.
  Rate-limit waits and network errors share one budget, and a call makes at most
  \<open>max_retries\<close> requests.
\<close>

theorem rate_limit_wait_uses_an_attempt:
  "(attempt < max_retries \<and> get attempt = Response 429 hs b \<and> retry_after hs = Inr d
      \<and> d < float_limit \<longrightarrow>
      fetch_loop max_retries attempt u get
        = emit [Get u, Sleep d] (fetch_loop max_retries (Suc attempt) u get))
   \<and> length (filter (\<lambda>e. e = Get u) (snd (fetch_loop max_retries attempt u get)))
        \<le> max_retries - attempt
   \<and> (header_get hs ''Retry-After'' = None \<longrightarrow> retry_after hs = Inr 5)"
  using fetch_loop_429 [of attempt max_retries get hs b d u]
    gets_bounded [of u max_retries attempt get]
  by (simp add: retry_after_def)

theorem rate_limit_wait_uses_an_attempt_witness:
  "fetch_page ''u'' (script [Response 429 [(''Retry-After'', ''7'')] []] (Response 200 [] ''body''))
     = emit [Get ''u'', Sleep 7]
         (fetch_loop 3 (Suc 0) ''u''
            (script [Response 429 [(''Retry-After'', ''7'')] []] (Response 200 [] ''body'')))
   \<and> length (filter (\<lambda>e. e = Get ''u'')
         (snd (fetch_page ''u''
            (script [Response 429 [(''Retry-After'', ''7'')] []] (Response 200 [] ''body'')))))
       \<le> 3
   \<and> retry_after [(''Content-Type'', ''text/html'')] = Inr 5"
proof -
  let ?get = "script [Response 429 [(''Retry-After'', ''7'')] []] (Response 200 [] ''body'')"
  have h: "0 < (3::nat) \<and> ?get 0 = Response 429 [(''Retry-After'', ''7'')] []
      \<and> retry_after [(''Retry-After'', ''7'')] = Inr 7 \<and> 7 < float_limit"
    by (simp add: script_def retry_after_seven seven_below_float_limit)
  note t = rate_limit_wait_uses_an_attempt [of 0 3 ?get "[(''Retry-After'', ''7'')]" "[]" 7 "''u''"]
  have "fetch_loop 3 0 ''u'' ?get = emit [Get ''u'', Sleep 7] (fetch_loop 3 (Suc 0) ''u'' ?get)"
    using t h by blast
  moreover have "length (filter (\<lambda>e. e = Get ''u'') (snd (fetch_loop 3 0 ''u'' ?get))) \<le> 3 - 0"
    using t by blast
  moreover have "header_get [(''Content-Type'', ''text/html'')] ''Retry-After'' = None"
    by code_simp
  then have "retry_after [(''Content-Type'', ''text/html'')] = Inr 5"
    using rate_limit_wait_uses_an_attempt [where hs = "[(''Content-Type'', ''text/html'')]"]
    by blast
  ultimately show ?thesis
    unfolding fetch_page_def by (simp only: diff_zero simp_thms)
qed

text \<open>
  The claim as stated fails: two network errors and then a 200 are within the budget
  of three attempts, but after one 429 wait the same two errors use it up and the
  page is given up, although it would have been served at the next attempt.
\<close>

theorem rate_limit_wait_counterexample:
  "fst (fetch_page ''u'' (script [ClientError, ClientError] (Response 200 [] ''body''))) = Inr ''body''
   \<and> fetch_page ''u'' (script [Response 429 [(''Retry-After'', ''7'')] [], ClientError, ClientError]
                            (Response 200 [] ''body''))
       = (Inr [], [Get ''u'', Sleep 7, Get ''u'', Sleep 2, Get ''u''])"
  by code_simp

text \<open>
  Claim C6. A 429 reply whose Retry-After value is not an integer (here the HTTP date
  form of the header) makes \<^verbatim>\<open>int\<close> raise ValueError. Nothing catches it:
  \<^verbatim>\<open>fetch_page\<close> catches \<^verbatim>\<open>aiohttp.ClientError\<close> only and \<^verbatim>\<open>scrape\<close> nothing, so the
  crawl ends at that page with the exception, and page 2 is never fetched. The
  default of 5 seconds is used only when the header is absent.
\<close>

theorem unparseable_retry_after_raises:
  "fetch_page default_base_url
       (always (Response 429 [(''Retry-After'', ''Wed, 21 Oct 2015 07:28:00 GMT'')] []))
     = (Inl ValueError, [Get default_base_url])
   \<and> scrape (toy_env [always (Response 429 [(''Retry-After'', ''Wed, 21 Oct 2015 07:28:00 GMT'')] []),
                       always (Response 200 [] ''a'')])
        default_base_url monday 2 fresh_world
     = (Inl ValueError, \<lparr>db = [], trace = [Get default_base_url]\<rparr>)"
  by code_simp

subsection \<open>Extraction\<close>



subsection \<open>Rows already stored\<close>

text \<open>
  Claim C8. Saving a record whose url is already in the table changes nothing; saving
  any batch, and any whole crawl, leaves every row that was there before at its
  position with all its fields, \<open>scraped_at\<close> included.
\<close>

theorem existing_row_untouched:
  "(url a \<in> set (map url tbl) \<longrightarrow> save_articles stamp [a] tbl = tbl)
   \<and> (\<forall>i < length tbl. save_articles stamp as tbl ! i = tbl ! i)
   \<and> (\<forall>i < length (db w). db (snd (scrape E base utcnow max_pages w)) ! i = db w ! i)"
proof (intro conjI impI allI)
  assume "url a \<in> set (map url tbl)"
  then show "save_articles stamp [a] tbl = tbl"
    by (simp add: save_articles_def insert_or_ignore_def url_mk_row)
next
  fix i assume i: "i < length tbl"
  obtain new where "save_loop stamp as tbl = tbl @ new"
    using save_loop_extends by blast
  then show "save_articles stamp as tbl ! i = tbl ! i"
    using i by (simp add: save_articles_def nth_append)
next
  fix i assume i: "i < length (db w)"
  obtain new where "db (snd (scrape E base utcnow max_pages w)) = db w @ new"
    using scrape_pages_extends [of E base utcnow "[1 ..< nat (max_pages + 1)]" w]
    unfolding scrape_def by blast
  then show "db (snd (scrape E base utcnow max_pages w)) ! i = db w ! i"
    using i by (simp add: nth_append)
qed

theorem existing_row_untouched_witness:
  "save_articles ''2024-05-07T08:00:00''
       [\<lparr>title = ''a, updated'', url = ''https://techcrunch.com/category/startups/a/'',
         date_published = ''2024-05-07T07:00:00+00:00'', excerpt = ''Changed''\<rparr>]
       [mk_row \<lparr>title = ''a'', url = ''https://techcrunch.com/category/startups/a/'',
                date_published = ''2024-05-01T09:00:00+00:00'', excerpt = ''Funding news''\<rparr>
          ''2024-05-06T08:00:00'']
     = [mk_row \<lparr>title = ''a'', url = ''https://techcrunch.com/category/startups/a/'',
                date_published = ''2024-05-01T09:00:00+00:00'', excerpt = ''Funding news''\<rparr>
          ''2024-05-06T08:00:00'']
   \<and> scraped_at
        (db (snd (scrape (toy_env [always (Response 200 [] ''ab'')]) default_base_url tuesday 1
               \<lparr>db = [mk_row \<lparr>title = ''a'', url = ''https://techcrunch.com/category/startups/a/'',
                          date_published = ''2024-05-01T09:00:00+00:00'', excerpt = ''Funding news''\<rparr>
                          ''2024-05-06T08:00:00''],
                 trace = []\<rparr>)) ! 0)
     = ''2024-05-06T08:00:00''
   \<and> save_articles ''2024-05-07T08:00:00''
       [\<lparr>title = ''z'', url = ''https://techcrunch.com/category/startups/z/'',
         date_published = [], excerpt = []\<rparr>,
        \<lparr>title = ''a, updated'', url = ''https://techcrunch.com/category/startups/a/'',
         date_published = ''2024-05-07T07:00:00+00:00'', excerpt = ''Changed''\<rparr>]
       [mk_row \<lparr>title = ''a'', url = ''https://techcrunch.com/category/startups/a/'',
                date_published = ''2024-05-01T09:00:00+00:00'', excerpt = ''Funding news''\<rparr>
          ''2024-05-06T08:00:00''] ! 0
     = mk_row \<lparr>title = ''a'', url = ''https://techcrunch.com/category/startups/a/'',
                date_published = ''2024-05-01T09:00:00+00:00'', excerpt = ''Funding news''\<rparr>
          ''2024-05-06T08:00:00''"
proof -
  let ?r = "mk_row \<lparr>title = ''a'', url = ''https://techcrunch.com/category/startups/a/'',
                date_published = ''2024-05-01T09:00:00+00:00'', excerpt = ''Funding news''\<rparr>
          ''2024-05-06T08:00:00''"
  let ?a = "\<lparr>title = ''a, updated'', url = ''https://techcrunch.com/category/startups/a/'',
         date_published = ''2024-05-07T07:00:00+00:00'', excerpt = ''Changed''\<rparr>"
  let ?w = "\<lparr>db = [?r], trace = []\<rparr>"
  note t = existing_row_untouched
    [of ?a "[?r]" "''2024-05-07T08:00:00''" "[]" ?w "toy_env [always (Response 200 [] ''ab'')]"
        default_base_url tuesday 1]
  have "url ?a \<in> set (map url [?r])"
    by (simp add: mk_row_def)
  then have "save_articles ''2024-05-07T08:00:00'' [?a] [?r] = [?r]"
    using t by blast
  moreover have "0 < length (db ?w)" by simp
  then have "db (snd (scrape (toy_env [always (Response 200 [] ''ab'')]) default_base_url tuesday 1 ?w)) ! 0
      = db ?w ! 0"
    using t by blast
  moreover have "0 < length [?r]" by simp
  then have "save_articles ''2024-05-07T08:00:00''
       [\<lparr>title = ''z'', url = ''https://techcrunch.com/category/startups/z/'',
         date_published = [], excerpt = []\<rparr>, ?a] [?r] ! 0 = [?r] ! 0"
    using existing_row_untouched
      [where tbl = "[?r]" and stamp = "''2024-05-07T08:00:00''"
         and as = "[\<lparr>title = ''z'', url = ''https://techcrunch.com/category/startups/z/'',
                     date_published = [], excerpt = []\<rparr>, ?a]",
       THEN conjunct2, THEN conjunct1]
    by blast
  ultimately show ?thesis
    by (simp add: mk_row_def)
qed

subsection \<open>Resolution of relative links\<close>

text \<open>
  Claim C9, as amended. The url of every extracted record is \<^verbatim>\<open>urljoin\<close> of the
  scraper's \<open>base_url\<close> and the block's \<^verbatim>\<open>href\<close>; the driver parses every page with
  that same \<open>base_url\<close>, and the url of the page being parsed does not enter.
\<close>

theorem urls_resolve_against_base_url:
  "(\<forall>a \<in> set (parse_articles select uj base html).
      \<exists>bs b l h. select html = Some bs \<and> b \<in> set bs \<and> title_elem b = Some l
        \<and> href l = Some h \<and> h \<noteq> [] \<and> uj base h = Inr (url a))
   \<and> (html \<noteq> [] \<longrightarrow>
        db (process_page E base utcnow page html w)
          = save_articles (utcnow page)
              (parse_articles (select_blocks E) (url_join E) base html) (db w))"
proof (intro conjI impI ballI)
  fix a assume a: "a \<in> set (parse_articles select uj base html)"
  then obtain bs where bs: "select html = Some bs" "a \<in> set (parse_blocks uj base bs)"
    by (cases "select html") (auto simp: parse_articles_def)
  have "\<exists>b l h. b \<in> set bs \<and> title_elem b = Some l \<and> href l = Some h \<and> h \<noteq> []
      \<and> uj base h = Inr (url a)"
    using bs(2)
  proof (induction bs)
    case Nil
    then show ?case by simp
  next
    case (Cons c cs)
    show ?case
    proof (cases "parse_block uj base c = Inr (Some a)")
      case True
      then have "\<exists>l h. title_elem c = Some l \<and> href l = Some h \<and> h \<noteq> [] \<and> uj base h = Inr (url a)"
        by (auto simp: parse_block_def Let_def split: sum.splits option.splits if_splits)
      then show ?thesis by auto
    next
      case False
      then have "a \<in> set (parse_blocks uj base cs)"
        using Cons.prems by (auto split: sum.splits option.splits)
      then show ?thesis using Cons.IH by auto
    qed
  qed
  then show "\<exists>bs b l h. select html = Some bs \<and> b \<in> set bs \<and> title_elem b = Some l
        \<and> href l = Some h \<and> h \<noteq> [] \<and> uj base h = Inr (url a)"
    using bs(1) by blast
next
  assume "html \<noteq> []"
  then show "db (process_page E base utcnow page html w)
          = save_articles (utcnow page)
              (parse_articles (select_blocks E) (url_join E) base html) (db w)"
    by (simp add: db_process_page save_articles_def)
qed

theorem urls_resolve_against_base_url_witness:
  "(\<exists>bs b l h. toy_select ''b'' = Some bs \<and> b \<in> set bs \<and> title_elem b = Some l
        \<and> href l = Some h \<and> h \<noteq> []
        \<and> urljoin_rel default_base_url h = Inr ''https://techcrunch.com/category/startups/b/'')
   \<and> map url (db (process_page (toy_env []) default_base_url monday 2 ''b'' fresh_world))
       = [''https://techcrunch.com/category/startups/b/'']"
proof -
  let ?a = "\<lparr>title = ''b'', url = ''https://techcrunch.com/category/startups/b/'',
             date_published = ''2024-05-01T09:00:00+00:00'', excerpt = ''Funding news''\<rparr>"
  have p: "parse_articles toy_select urljoin_rel default_base_url ''b'' = [?a]"
    by code_simp
  have e: "select_blocks (toy_env []) = toy_select" "url_join (toy_env []) = urljoin_rel"
    by (simp_all add: toy_env_def)
  note t = urls_resolve_against_base_url
    [of toy_select urljoin_rel default_base_url "''b''" "toy_env []" monday 2 fresh_world]
  have "\<exists>bs b l h. toy_select ''b'' = Some bs \<and> b \<in> set bs \<and> title_elem b = Some l
        \<and> href l = Some h \<and> h \<noteq> [] \<and> urljoin_rel default_base_url h = Inr (url ?a)"
    using t p by simp
  moreover have "db (process_page (toy_env []) default_base_url monday 2 ''b'' fresh_world)
      = save_articles (monday 2) [?a] (db fresh_world)"
    using t p e by simp
  ultimately show ?thesis
    by (simp add: save_articles_def insert_or_ignore_def fresh_world_def mk_row_def)
qed

text \<open>
  The claim as stated fails: the relative link \<^verbatim>\<open>b/\<close> found on page 2 is stored as
  a child of the base url, not of the url of page 2.
\<close>

theorem relative_href_on_page_two:
  "map url (db (snd (scrape (toy_env [always (Response 200 [] ''a''), always (Response 200 [] ''b'')])
                       default_base_url monday 2 fresh_world)))
     = [''https://techcrunch.com/category/startups/a/'',
        ''https://techcrunch.com/category/startups/b/'']
   \<and> page_url default_base_url 2 = ''https://techcrunch.com/category/startups/page/2/''
   \<and> urljoin_rel (page_url default_base_url 2) ''b/''
     = Inr ''https://techcrunch.com/category/startups/page/2/b/''"
  by code_simp

subsection \<open>The empty string as the failure value\<close>

text \<open>
  Claim C10. \<^verbatim>\<open>fetch_page\<close> is written to return the empty string for every failure,
  and for rate-limit replies with an integer Retry-After it does: three of them give
  the empty string. A rate-limit reply whose Retry-After is not an integer breaks this:
  \<^verbatim>\<open>int\<close> raises ValueError, here at the second attempt after a first wait of 7
  seconds, the exception leaves \<^verbatim>\<open>fetch_page\<close> and \<^verbatim>\<open>scrape\<close>, and the crawl ends
  instead of skipping the page. The driver receives a failure that is not the empty
  string. This is the defect of claim C6, met on a later attempt.
\<close>

theorem rate_limited_fetch_can_raise:
  "fetch_page default_base_url
       (script [Response 429 [(''Retry-After'', ''7'')] [],
                Response 429 [(''Retry-After'', ''Fri, 31 Dec 1999 23:59:59 GMT'')] []]
          (Response 200 [] ''a''))
     = (Inl ValueError, [Get default_base_url, Sleep 7, Get default_base_url])
   \<and> fetch_page default_base_url (always (Response 429 [(''Retry-After'', ''7'')] []))
     = (Inr [], [Get default_base_url, Sleep 7, Get default_base_url, Sleep 7,
                 Get default_base_url, Sleep 7])
   \<and> scrape (toy_env [script [Response 429 [(''Retry-After'', ''7'')] [],
                               Response 429 [(''Retry-After'', ''Fri, 31 Dec 1999 23:59:59 GMT'')] []]
                         (Response 200 [] ''a''),
                       always (Response 200 [] ''b'')])
        default_base_url monday 2 fresh_world
     = (Inl ValueError, \<lparr>db = [], trace = [Get default_base_url, Sleep 7, Get default_base_url]\<rparr>)"
  by code_simp

end
